theory Spec2Isabelle
  imports Main
begin

section \<open>Sequence alignment: the program\<close>

text \<open>
  A shallow embedding of \<^verbatim>\<open>sequence_alignment.py\<close>. Python strings are
  \<^typ>\<open>string\<close>, Python's unbounded integers are \<^typ>\<open>int\<close>, and a raised
  exception is the left summand of the result.
\<close>

datatype py_error = KeyError | TypeError | IndexError

text \<open>
  \<^verbatim>\<open>pen_map: Dict[str, Dict[str, int]]\<close>. The dictionary is represented by its
  items; \<^const>\<open>map_of\<close> is the lookup (a dictionary has one item per key). The keys are
  Python strings; the program only ever looks up one-character strings.
\<close>

type_synonym pen_map = "(string \<times> (string \<times> int) list) list"

type_synonym table = "int list list"

text \<open>\<^verbatim>\<open>pen_map[x_curr][y_curr]\<close>: either subscript raises KeyError on a missing key.\<close>

definition pen_lookup :: "pen_map \<Rightarrow> char \<Rightarrow> char \<Rightarrow> py_error + int" where
  "pen_lookup pen_map x_curr y_curr =
     (case map_of pen_map [x_curr] of
        None \<Rightarrow> Inl KeyError
      | Some row \<Rightarrow>
          (case map_of row [y_curr] of
             None \<Rightarrow> Inl KeyError
           | Some p \<Rightarrow> Inr p))"

subsection \<open>Table construction (lines 65 to 79)\<close>

text \<open>\<^verbatim>\<open>for i in range(m + 1): subproblems[i][0] = i * gap_pen\<close>\<close>

fun seed_column :: "int \<Rightarrow> nat list \<Rightarrow> table \<Rightarrow> table" where
  "seed_column gap_pen [] subproblems = subproblems"
| "seed_column gap_pen (i # is) subproblems =
     seed_column gap_pen is
       (subproblems[i := (subproblems ! i)[0 := int i * gap_pen]])"

text \<open>\<^verbatim>\<open>for j in range(n + 1): subproblems[0][j] = j * gap_pen\<close>\<close>

fun seed_row :: "int \<Rightarrow> nat list \<Rightarrow> table \<Rightarrow> table" where
  "seed_row gap_pen [] subproblems = subproblems"
| "seed_row gap_pen (j # js) subproblems =
     seed_row gap_pen js
       (subproblems[0 := (subproblems ! 0)[j := int j * gap_pen]])"

text \<open>
  The inner loop \<^verbatim>\<open>for j in range(1, n + 1)\<close> of row \<open>i\<close>, over the remaining
  values of \<open>j\<close>. The table has \<open>m + 1\<close> rows of \<open>n + 1\<close> cells and \<open>1 \<le> i \<le> m\<close>,
  \<open>1 \<le> j \<le> n\<close>, so every subscript is in range (lemma \<open>build_table_spec\<close> below
  carries the dimensions); the only exception is the KeyError of the penalty lookup.
\<close>

fun fill_row ::
  "string \<Rightarrow> string \<Rightarrow> int \<Rightarrow> pen_map \<Rightarrow> nat \<Rightarrow> nat list \<Rightarrow> table \<Rightarrow> py_error + table" where
  "fill_row x y gap_pen pen_map i [] subproblems = Inr subproblems"
| "fill_row x y gap_pen pen_map i (j # js) subproblems =
     (let x_curr = x ! (i - 1); y_curr = y ! (j - 1) in
      case pen_lookup pen_map x_curr y_curr of
        Inl e \<Rightarrow> Inl e
      | Inr p \<Rightarrow>
          (let result1 = subproblems ! (i - 1) ! (j - 1) + p;
               result2 = subproblems ! (i - 1) ! j + gap_pen;
               result3 = subproblems ! i ! (j - 1) + gap_pen
           in fill_row x y gap_pen pen_map i js
                (subproblems[i := (subproblems ! i)[j := min result1 (min result2 result3)]])))"

text \<open>The outer loop \<^verbatim>\<open>for i in range(1, m + 1)\<close>, over the remaining values of \<open>i\<close>.\<close>

fun fill_rows ::
  "string \<Rightarrow> string \<Rightarrow> int \<Rightarrow> pen_map \<Rightarrow> nat list \<Rightarrow> nat \<Rightarrow> table \<Rightarrow> py_error + table" where
  "fill_rows x y gap_pen pen_map [] n subproblems = Inr subproblems"
| "fill_rows x y gap_pen pen_map (i # is) n subproblems =
     (case fill_row x y gap_pen pen_map i [1..<n + 1] subproblems of
        Inl e \<Rightarrow> Inl e
      | Inr subproblems' \<Rightarrow> fill_rows x y gap_pen pen_map is n subproblems')"

definition build_table :: "string \<Rightarrow> string \<Rightarrow> int \<Rightarrow> pen_map \<Rightarrow> py_error + table" where
  "build_table x y gap_pen pen_map =
     (let m = length x; n = length y;
          subproblems = replicate (m + 1) (replicate (n + 1) 0);
          subproblems = seed_column gap_pen [0..<m + 1] subproblems;
          subproblems = seed_row gap_pen [0..<n + 1] subproblems
      in fill_rows x y gap_pen pen_map [1..<m + 1] n subproblems)"

subsection \<open>Backtracking (lines 84 to 125)\<close>

text \<open>\<^verbatim>\<open>dp[i][j]\<close> on the table handed to the helper: IndexError out of range.\<close>

definition dp_get :: "table \<Rightarrow> nat \<Rightarrow> nat \<Rightarrow> py_error + int" where
  "dp_get dp i j =
     (if i < length dp \<and> j < length (dp ! i) then Inr (dp ! i ! j) else Inl IndexError)"

text \<open>
  \<^verbatim>\<open>y -= 1\<close> on line 110, where \<open>y\<close> is the \<^verbatim>\<open>str\<close> parameter: \<^verbatim>\<open>str\<close> has no
  subtraction, so the statement raises TypeError whatever the operands.
\<close>

definition str_isub :: "string \<Rightarrow> int \<Rightarrow> py_error + string" where
  "str_isub s k = Inl TypeError"

text \<open>
  The loop \<^verbatim>\<open>while i >= 1 and j >= 1\<close>; the result is the state at the exit.
  Case 1 assigns \<open>sx\<close>, \<open>sy\<close> and \<open>i\<close>, then \<open>y\<close>; \<open>j\<close> is not assigned there.
\<close>

function backtrack ::
  "string \<Rightarrow> string \<Rightarrow> int \<Rightarrow> pen_map \<Rightarrow> table \<Rightarrow> nat \<Rightarrow> nat \<Rightarrow> string \<Rightarrow> string
     \<Rightarrow> py_error + (nat \<times> nat \<times> string \<times> string)" where
  "backtrack x y gap_pen pen_map dp i j sx sy =
     (if i \<ge> 1 \<and> j \<ge> 1 then
        (case dp_get dp (i - 1) (j - 1) of
           Inl e \<Rightarrow> Inl e
         | Inr d \<Rightarrow>
        (case pen_lookup pen_map (x ! (i - 1)) (y ! (j - 1)) of
           Inl e \<Rightarrow> Inl e
         | Inr p \<Rightarrow>
        (case dp_get dp (i - 1) j of
           Inl e \<Rightarrow> Inl e
         | Inr u \<Rightarrow>
        (case dp_get dp i j of
           Inl e \<Rightarrow> Inl e
         | Inr result \<Rightarrow>
             if result = d + p then
               (case str_isub y 1 of
                  Inl e \<Rightarrow> Inl e
                | Inr y' \<Rightarrow>
                    backtrack x y' gap_pen pen_map dp (i - 1) j
                      (x ! (i - 1) # sx) (y ! (j - 1) # sy))
             else if result = u + gap_pen then
               backtrack x y gap_pen pen_map dp (i - 1) j (x ! (i - 1) # sx) (CHR '' '' # sy)
             else
               backtrack x y gap_pen pen_map dp i (j - 1) (CHR '' '' # sx) (y ! (j - 1) # sy)))))
      else Inr (i, j, sx, sy))"
  by pat_completeness auto
termination
  by (relation "measure (\<lambda>(x, y, gap_pen, pen_map, dp, i, j, sx, sy). i + j)") auto

text \<open>The equation of the loop is unfolded one iteration at a time, where a proof needs it.\<close>

declare backtrack.simps [simp del]

text \<open>
  \<^verbatim>\<open>_reconstruct_optimal_alignment\<close>: the loop from \<open>(len(x), len(y))\<close>, then lines
  121 to 125.
\<close>

definition reconstruct_optimal_alignment ::
  "string \<Rightarrow> string \<Rightarrow> int \<Rightarrow> pen_map \<Rightarrow> table \<Rightarrow> py_error + string list" where
  "reconstruct_optimal_alignment x y gap_pen pen_map dp =
     (case backtrack x y gap_pen pen_map dp (length x) (length y) [] [] of
        Inl e \<Rightarrow> Inl e
      | Inr (i, j, sx, sy) \<Rightarrow>
          if i \<noteq> 0 then Inr [sx, replicate i (CHR '' '') @ sy]
          else if j \<noteq> 0 then Inr [replicate j (CHR '' '') @ sx, sy]
          else Inr [sx, sy])"

subsection \<open>The public function\<close>

definition sequence_alignment ::
  "string \<Rightarrow> string \<Rightarrow> int \<Rightarrow> pen_map \<Rightarrow> py_error + string list" where
  "sequence_alignment x y gap_pen pen_map =
     (if x = [] \<or> y = [] then Inr []
      else if gap_pen < 0 then Inr []
      else if pen_map = [] then Inr []
      else
        (case build_table x y gap_pen pen_map of
           Inl e \<Rightarrow> Inl e
         | Inr subproblems \<Rightarrow> reconstruct_optimal_alignment x y gap_pen pen_map subproblems))"

subsection \<open>The concrete scenario\<close>

text \<open>
  The penalty map of the scenario over the alphabet A, C, G, T: 0 for a symbol against
  itself, 3 for two distinct symbols.
\<close>

definition scenario_pen_map :: pen_map where
  "scenario_pen_map =
     map (\<lambda>a. ([a], map (\<lambda>b. ([b], if a = b then 0 else 3)) ''ACGT'')) ''ACGT''"

section \<open>Alignments and their penalty, as the specification words them\<close>

text \<open>
  An alignment is a list of columns; a column pairs a position of \<open>Sx\<close> with the
  position of \<open>Sy\<close> under it, \<open>None\<close> being the gap marker. It is an alignment of
  \<open>x\<close> and \<open>y\<close> when deleting the gap markers of its first row gives \<open>x\<close> and
  of its second row gives \<open>y\<close>. A column costs the substitution penalty when both
  positions are symbols and the gap penalty when either is a gap.
\<close>

type_synonym column = "char option \<times> char option"

fun strip_gaps :: "char option list \<Rightarrow> string" where
  "strip_gaps [] = []"
| "strip_gaps (None # cs) = strip_gaps cs"
| "strip_gaps (Some c # cs) = c # strip_gaps cs"

definition spec_alignment :: "column list \<Rightarrow> string \<Rightarrow> string \<Rightarrow> bool" where
  "spec_alignment a x y \<longleftrightarrow> strip_gaps (map fst a) = x \<and> strip_gaps (map snd a) = y"

text \<open>
  The penalty of a pair of symbols as a number. The pairs of an alignment of \<open>x\<close> and
  \<open>y\<close> are pairs of a symbol of \<open>x\<close> and a symbol of \<open>y\<close>, where the theorems
  below assume the map to have an entry; the value 0 for a missing entry is never used.
\<close>

definition pen_of :: "pen_map \<Rightarrow> char \<Rightarrow> char \<Rightarrow> int" where
  "pen_of pen_map a b = (case pen_lookup pen_map a b of Inl e \<Rightarrow> 0 | Inr p \<Rightarrow> p)"

fun column_penalty :: "pen_map \<Rightarrow> int \<Rightarrow> column \<Rightarrow> int" where
  "column_penalty pen_map gap_pen (Some a, Some b) = pen_of pen_map a b"
| "column_penalty pen_map gap_pen (Some a, None) = gap_pen"
| "column_penalty pen_map gap_pen (None, Some b) = gap_pen"
| "column_penalty pen_map gap_pen (None, None) = gap_pen"

definition total_penalty :: "pen_map \<Rightarrow> int \<Rightarrow> column list \<Rightarrow> int" where
  "total_penalty pen_map gap_pen a = sum_list (map (column_penalty pen_map gap_pen) a)"

section \<open>Auxiliary notions of the proofs\<close>

text \<open>The penalty map has an entry for every symbol of \<open>x\<close> against every symbol of \<open>y\<close>.\<close>

definition pen_total :: "pen_map \<Rightarrow> string \<Rightarrow> string \<Rightarrow> bool" where
  "pen_total pm x y \<longleftrightarrow> (\<forall>a\<in>set x. \<forall>b\<in>set y. \<exists>p. pen_lookup pm a b = Inr p)"

text \<open>The table after line 67, and after the two seeding loops.\<close>

definition blank :: "nat \<Rightarrow> nat \<Rightarrow> table" where
  "blank m n = replicate (m + 1) (replicate (n + 1) 0)"

definition seeded :: "nat \<Rightarrow> nat \<Rightarrow> int \<Rightarrow> table" where
  "seeded m n g = seed_row g [0..<n + 1] (seed_column g [0..<m + 1] (blank m n))"

definition table_dims :: "table \<Rightarrow> nat \<Rightarrow> nat \<Rightarrow> bool" where
  "table_dims t m n \<longleftrightarrow> length t = m + 1 \<and> (\<forall>r\<le>m. length (t ! r) = n + 1)"

text \<open>Cell \<open>(r, c)\<close> is the minimum of its three candidates.\<close>

definition recurrence_at :: "string \<Rightarrow> string \<Rightarrow> int \<Rightarrow> pen_map \<Rightarrow> table \<Rightarrow> nat \<Rightarrow> nat \<Rightarrow> bool" where
  "recurrence_at x y g pm t r c \<longleftrightarrow>
     t ! r ! c = min (t ! (r - 1) ! (c - 1) + pen_of pm (x ! (r - 1)) (y ! (c - 1)))
                   (min (t ! (r - 1) ! c + g) (t ! r ! (c - 1) + g))"

text \<open>
  The invariant of the two nested loops when the next cell to write is \<open>(i, j)\<close>: the
  dimensions, the seeded row and column, and the recurrence at every cell written so far.
\<close>

definition fill_inv :: "string \<Rightarrow> string \<Rightarrow> int \<Rightarrow> pen_map \<Rightarrow> table \<Rightarrow> nat \<Rightarrow> nat \<Rightarrow> bool" where
  "fill_inv x y g pm t i j \<longleftrightarrow>
     table_dims t (length x) (length y) \<and>
     (\<forall>r\<le>length x. t ! r ! 0 = int r * g) \<and>
     (\<forall>c\<le>length y. t ! 0 ! c = int c * g) \<and>
     (\<forall>r c. 1 \<le> r \<and> 1 \<le> c \<and> c \<le> length y \<and> (r < i \<or> r = i \<and> c < j)
        \<longrightarrow> recurrence_at x y g pm t r c)"

text \<open>
  The recurrence of the module's docstring as a function of two symbol lists, consuming
  them from the front; the table holds its values on the reversed prefixes.
\<close>

fun opt_penalty :: "pen_map \<Rightarrow> int \<Rightarrow> string \<Rightarrow> string \<Rightarrow> int" where
  "opt_penalty pm g [] ys = int (length ys) * g"
| "opt_penalty pm g (a # xs) [] = int (length (a # xs)) * g"
| "opt_penalty pm g (a # xs) (b # ys) =
     min (opt_penalty pm g xs ys + pen_of pm a b)
       (min (opt_penalty pm g xs (b # ys) + g) (opt_penalty pm g (a # xs) ys + g))"

section \<open>The table builder\<close>

lemma nth2_update:
  "i < length t \<Longrightarrow> j < length (t ! i) \<Longrightarrow>
   t[i := (t ! i)[j := v]] ! r ! c = (if r = i \<and> c = j then v else t ! r ! c)"
  by (cases "r = i") (auto simp: nth_list_update)

lemma length_update2 [simp]: "length (t[i := (t ! i)[j := v]] ! r) = length (t ! r)"
  by (cases "r = i"; cases "i < length t") (auto simp: list_update_beyond)

lemma table_dims_update2: "table_dims t m n \<Longrightarrow> table_dims (t[i := (t ! i)[j := v]]) m n"
  by (simp add: table_dims_def)

lemma seed_column_length [simp]: "length (seed_column g is t) = length t"
  by (induction "is" arbitrary: t) auto

lemma seed_column_row_length [simp]: "length (seed_column g is t ! r) = length (t ! r)"
  by (induction "is" arbitrary: t) auto

lemma seed_row_length [simp]: "length (seed_row g js t) = length t"
  by (induction js arbitrary: t) auto

lemma seed_row_row_length [simp]: "length (seed_row g js t ! r) = length (t ! r)"
  by (induction js arbitrary: t) auto

lemma seed_column_nth:
  "\<forall>i\<in>set is. i < length t \<and> 0 < length (t ! i) \<Longrightarrow> distinct is \<Longrightarrow>
   seed_column g is t ! r ! c = (if r \<in> set is \<and> c = 0 then int r * g else t ! r ! c)"
proof (induction "is" arbitrary: t)
  case Nil
  then show ?case by simp
next
  case (Cons i "is")
  let ?t = "t[i := (t ! i)[0 := int i * g]]"
  have "\<forall>k\<in>set is. k < length ?t \<and> 0 < length (?t ! k)"
    using Cons.prems by simp
  moreover have "distinct is" using Cons.prems by simp
  ultimately have "seed_column g is ?t ! r ! c =
      (if r \<in> set is \<and> c = 0 then int r * g else ?t ! r ! c)"
    by (rule Cons.IH)
  moreover have "?t ! r ! c = (if r = i \<and> c = 0 then int i * g else t ! r ! c)"
    using Cons.prems by (intro nth2_update) auto
  ultimately show ?case using Cons.prems by auto
qed

lemma seed_row_nth:
  "0 < length t \<Longrightarrow> \<forall>j\<in>set js. j < length (t ! 0) \<Longrightarrow> distinct js \<Longrightarrow>
   seed_row g js t ! r ! c = (if r = 0 \<and> c \<in> set js then int c * g else t ! r ! c)"
proof (induction js arbitrary: t)
  case Nil
  then show ?case by simp
next
  case (Cons j js)
  let ?t = "t[0 := (t ! 0)[j := int j * g]]"
  have "seed_row g js ?t ! r ! c =
      (if r = 0 \<and> c \<in> set js then int c * g else ?t ! r ! c)"
    using Cons.prems by (intro Cons.IH) auto
  moreover have "?t ! r ! c = (if r = 0 \<and> c = j then int j * g else t ! r ! c)"
    using Cons.prems by (intro nth2_update) auto
  ultimately show ?case using Cons.prems by auto
qed

lemma length_blank [simp]: "length (blank m n) = m + 1"
  by (simp add: blank_def)

lemma blank_nth [simp]: "r \<le> m \<Longrightarrow> blank m n ! r = replicate (n + 1) 0"
  unfolding blank_def by (cases r) auto

lemma blank_nth2 [simp]: "r \<le> m \<Longrightarrow> c \<le> n \<Longrightarrow> blank m n ! r ! c = 0"
  by (cases c) auto

lemma seeded_dims: "table_dims (seeded m n g) m n"
  by (simp add: seeded_def table_dims_def)

lemma seeded_nth:
  assumes "r \<le> m" "c \<le> n"
  shows "seeded m n g ! r ! c = (if r = 0 then int c * g else if c = 0 then int r * g else 0)"
proof -
  let ?s = "seed_column g [0..<m + 1] (blank m n)"
  have col: "?s ! r ! c = (if c = 0 then int r * g else 0)"
    using assms by (subst seed_column_nth) auto
  have "seeded m n g ! r ! c = (if r = 0 \<and> c \<in> set [0..<n + 1] then int c * g else ?s ! r ! c)"
    unfolding seeded_def by (rule seed_row_nth) auto
  with col show ?thesis using assms by auto
qed

lemma fill_inv_seeded: "fill_inv x y g pm (seeded (length x) (length y) g) 1 1"
  unfolding fill_inv_def using seeded_dims seeded_nth by auto

lemma fill_invI:
  assumes "table_dims t (length x) (length y)"
    and "\<And>r. r \<le> length x \<Longrightarrow> t ! r ! 0 = int r * g"
    and "\<And>c. c \<le> length y \<Longrightarrow> t ! 0 ! c = int c * g"
    and "\<And>r c. 1 \<le> r \<Longrightarrow> 1 \<le> c \<Longrightarrow> c \<le> length y \<Longrightarrow> r < i \<or> r = i \<and> c < j
           \<Longrightarrow> recurrence_at x y g pm t r c"
  shows "fill_inv x y g pm t i j"
  using assms by (simp add: fill_inv_def)

lemma fill_inv_dims: "fill_inv x y g pm t i j \<Longrightarrow> table_dims t (length x) (length y)"
  by (simp add: fill_inv_def)

lemma fill_inv_col0: "fill_inv x y g pm t i j \<Longrightarrow> r \<le> length x \<Longrightarrow> t ! r ! 0 = int r * g"
  by (simp add: fill_inv_def)

lemma fill_inv_row0: "fill_inv x y g pm t i j \<Longrightarrow> c \<le> length y \<Longrightarrow> t ! 0 ! c = int c * g"
  by (simp add: fill_inv_def)

lemma fill_inv_rec:
  "fill_inv x y g pm t i j \<Longrightarrow> 1 \<le> r \<Longrightarrow> 1 \<le> c \<Longrightarrow> c \<le> length y \<Longrightarrow>
   r < i \<or> r = i \<and> c < j \<Longrightarrow> recurrence_at x y g pm t r c"
  by (simp add: fill_inv_def)

lemma build_table_seeded:
  "build_table x y g pm = fill_rows x y g pm [1..<length x + 1] (length y) (seeded (length x) (length y) g)"
  by (simp add: build_table_def seeded_def blank_def Let_def)

lemma fill_inv_step:
  assumes inv: "fill_inv x y g pm t i j"
    and i: "1 \<le> i" "i \<le> length x" and j: "1 \<le> j" "j \<le> length y"
    and p: "pen_lookup pm (x ! (i - 1)) (y ! (j - 1)) = Inr p"
  shows "fill_inv x y g pm
           (t[i := (t ! i)[j := min (t ! (i - 1) ! (j - 1) + p)
                                   (min (t ! (i - 1) ! j + g) (t ! i ! (j - 1) + g))]])
           i (Suc j)"
proof -
  let ?v = "min (t ! (i - 1) ! (j - 1) + p) (min (t ! (i - 1) ! j + g) (t ! i ! (j - 1) + g))"
  let ?t = "t[i := (t ! i)[j := ?v]]"
  have dims: "table_dims t (length x) (length y)" using inv by (rule fill_inv_dims)
  then have "i < length t" "j < length (t ! i)"
    using i j by (auto simp: table_dims_def)
  then have nth: "\<And>r c. ?t ! r ! c = (if r = i \<and> c = j then ?v else t ! r ! c)"
    by (rule nth2_update)
  have pen: "pen_of pm (x ! (i - 1)) (y ! (j - 1)) = p"
    using p by (simp add: pen_of_def)
  show ?thesis
  proof (rule fill_invI)
    show "table_dims ?t (length x) (length y)"
      using dims by (rule table_dims_update2)
  next
    fix r assume "r \<le> length x"
    then have "t ! r ! 0 = int r * g" using inv by (intro fill_inv_col0)
    then show "?t ! r ! 0 = int r * g" unfolding nth using j by simp
  next
    fix c assume "c \<le> length y"
    then have "t ! 0 ! c = int c * g" using inv by (intro fill_inv_row0)
    then show "?t ! 0 ! c = int c * g" unfolding nth using i by simp
  next
    fix r c
    assume rc: "1 \<le> r" "1 \<le> c" "c \<le> length y" "r < i \<or> r = i \<and> c < Suc j"
    show "recurrence_at x y g pm ?t r c"
    proof (cases "r = i \<and> c = j")
      case True
      have ne: "i - 1 \<noteq> i" "j - 1 \<noteq> j" using i j by arith+
      have "?t ! i ! j = ?v" unfolding nth by simp
      moreover have "?t ! (i - 1) ! (j - 1) = t ! (i - 1) ! (j - 1)"
        "?t ! (i - 1) ! j = t ! (i - 1) ! j" "?t ! i ! (j - 1) = t ! i ! (j - 1)"
        unfolding nth using ne by simp_all
      ultimately show ?thesis
        using True pen unfolding recurrence_at_def by (simp only:)
    next
      case False
      with rc have before: "r < i \<or> r = i \<and> c < j" by auto
      have "recurrence_at x y g pm t r c"
        using inv rc(1-3) before by (rule fill_inv_rec)
      moreover have "?t ! r ! c = t ! r ! c" "?t ! (r - 1) ! (c - 1) = t ! (r - 1) ! (c - 1)"
        "?t ! (r - 1) ! c = t ! (r - 1) ! c" "?t ! r ! (c - 1) = t ! r ! (c - 1)"
        unfolding nth using before rc(1,2) by auto
      ultimately show ?thesis unfolding recurrence_at_def by (simp only:)
    qed
  qed
qed

lemma pen_total_nth:
  assumes "pen_total pm x y" "1 \<le> i" "i \<le> length x" "1 \<le> j" "j \<le> length y"
  shows "\<exists>p. pen_lookup pm (x ! (i - 1)) (y ! (j - 1)) = Inr p"
proof -
  have "x ! (i - 1) \<in> set x" "y ! (j - 1) \<in> set y"
    using assms by auto
  then show ?thesis using assms(1) unfolding pen_total_def by blast
qed

lemma fill_row_inv:
  assumes tot: "pen_total pm x y" and i: "1 \<le> i" "i \<le> length x"
  shows "fill_inv x y g pm t i j \<Longrightarrow> 1 \<le> j \<Longrightarrow> j \<le> length y + 1 \<Longrightarrow>
         \<exists>t'. fill_row x y g pm i [j..<length y + 1] t = Inr t' \<and>
              fill_inv x y g pm t' i (length y + 1)"
proof (induction "length y + 1 - j" arbitrary: j t)
  case 0
  then have "j = length y + 1" by simp
  with 0 show ?case by simp
next
  case (Suc k)
  then have j: "1 \<le> j" "j \<le> length y" by auto
  then have upt: "[j..<length y + 1] = j # [Suc j..<length y + 1]"
    by (simp add: upt_conv_Cons)
  obtain p where p: "pen_lookup pm (x ! (i - 1)) (y ! (j - 1)) = Inr p"
    using pen_total_nth [OF tot i j] by blast
  let ?t = "t[i := (t ! i)[j := min (t ! (i - 1) ! (j - 1) + p)
                                   (min (t ! (i - 1) ! j + g) (t ! i ! (j - 1) + g))]]"
  have inv': "fill_inv x y g pm ?t i (Suc j)"
    using Suc.prems(1) i j p by (rule fill_inv_step)
  have k: "k = length y + 1 - Suc j" using Suc.hyps(2) by simp
  have "1 \<le> Suc j" "Suc j \<le> length y + 1" using j by simp_all
  with k inv' have "\<exists>t'. fill_row x y g pm i [Suc j..<length y + 1] ?t = Inr t' \<and>
              fill_inv x y g pm t' i (length y + 1)"
    by (rule Suc.hyps(1))
  then obtain t' where t': "fill_row x y g pm i [Suc j..<length y + 1] ?t = Inr t'"
      "fill_inv x y g pm t' i (length y + 1)"
    by blast
  have "fill_row x y g pm i [j..<length y + 1] t =
      fill_row x y g pm i [Suc j..<length y + 1] ?t"
    by (subst upt) (simp only: fill_row.simps Let_def p sum.case)
  then have "fill_row x y g pm i [j..<length y + 1] t = Inr t'"
    using t'(1) by (simp only:)
  with t'(2) show ?case by blast
qed

lemma fill_inv_next_row:
  assumes inv: "fill_inv x y g pm t i (length y + 1)"
  shows "fill_inv x y g pm t (Suc i) 1"
proof (rule fill_invI)
  show "table_dims t (length x) (length y)" using inv by (rule fill_inv_dims)
next
  fix r assume "r \<le> length x"
  with inv show "t ! r ! 0 = int r * g" by (rule fill_inv_col0)
next
  fix c assume "c \<le> length y"
  with inv show "t ! 0 ! c = int c * g" by (rule fill_inv_row0)
next
  fix r c
  assume rc: "1 \<le> r" "1 \<le> c" "c \<le> length y" "r < Suc i \<or> r = Suc i \<and> c < 1"
  then have "r < i \<or> r = i \<and> c < length y + 1" by auto
  with inv rc(1-3) show "recurrence_at x y g pm t r c" by (rule fill_inv_rec)
qed

lemma fill_rows_inv:
  assumes tot: "pen_total pm x y"
  shows "fill_inv x y g pm t i 1 \<Longrightarrow> 1 \<le> i \<Longrightarrow> i \<le> length x + 1 \<Longrightarrow>
         \<exists>t'. fill_rows x y g pm [i..<length x + 1] (length y) t = Inr t' \<and>
              fill_inv x y g pm t' (length x + 1) 1"
proof (induction "length x + 1 - i" arbitrary: i t)
  case 0
  then have "i = length x + 1" by simp
  with 0 show ?case by simp
next
  case (Suc k)
  then have i: "1 \<le> i" "i \<le> length x" by auto
  then have upt: "[i..<length x + 1] = i # [Suc i..<length x + 1]"
    by (simp add: upt_conv_Cons)
  have "\<exists>t'. fill_row x y g pm i [1..<length y + 1] t = Inr t' \<and>
              fill_inv x y g pm t' i (length y + 1)"
    using tot i Suc.prems(1) by (rule fill_row_inv) simp_all
  then obtain t1 where t1: "fill_row x y g pm i [1..<length y + 1] t = Inr t1"
      "fill_inv x y g pm t1 i (length y + 1)"
    by blast
  have inv': "fill_inv x y g pm t1 (Suc i) 1"
    using t1(2) by (rule fill_inv_next_row)
  have k: "k = length x + 1 - Suc i" using Suc.hyps(2) by simp
  have "1 \<le> Suc i" "Suc i \<le> length x + 1" using i by simp_all
  with k inv' have "\<exists>t'. fill_rows x y g pm [Suc i..<length x + 1] (length y) t1 = Inr t' \<and>
              fill_inv x y g pm t' (length x + 1) 1"
    by (rule Suc.hyps(1))
  then obtain t' where t': "fill_rows x y g pm [Suc i..<length x + 1] (length y) t1 = Inr t'"
      "fill_inv x y g pm t' (length x + 1) 1"
    by blast
  have "fill_rows x y g pm [i..<length x + 1] (length y) t =
      fill_rows x y g pm [Suc i..<length x + 1] (length y) t1"
    by (subst upt) (simp only: fill_rows.simps t1(1) sum.case)
  then have "fill_rows x y g pm [i..<length x + 1] (length y) t = Inr t'"
    using t'(1) by (simp only:)
  with t'(2) show ?case by blast
qed

lemma build_table_spec:
  assumes "pen_total pm x y"
  shows "\<exists>t. build_table x y g pm = Inr t \<and> fill_inv x y g pm t (length x + 1) 1"
  unfolding build_table_seeded
  using assms fill_inv_seeded by (rule fill_rows_inv) simp_all

section \<open>Optimality of the recurrence\<close>

lemma strip_gaps_append: "strip_gaps (cs @ ds) = strip_gaps cs @ strip_gaps ds"
  by (induction cs rule: strip_gaps.induct) auto

lemma strip_gaps_rev: "strip_gaps (rev cs) = rev (strip_gaps cs)"
  by (induction cs rule: strip_gaps.induct) (auto simp: strip_gaps_append)

lemma spec_alignment_rev: "spec_alignment a x y \<Longrightarrow> spec_alignment (rev a) (rev x) (rev y)"
  by (auto simp: spec_alignment_def rev_map [symmetric] strip_gaps_rev)

lemma total_penalty_rev: "total_penalty pm g (rev a) = total_penalty pm g a"
  by (induction a) (simp_all add: total_penalty_def)

lemma total_penalty_Cons:
  "total_penalty pm g (c # a) = column_penalty pm g c + total_penalty pm g a"
  by (simp add: total_penalty_def)

lemma opt_Nil2: "opt_penalty pm g xs [] = int (length xs) * g"
  by (cases xs) auto

lemma opt_del: "opt_penalty pm g (c # xs) ys \<le> opt_penalty pm g xs ys + g"
  by (cases ys) (auto simp: opt_Nil2 algebra_simps)

lemma opt_ins: "opt_penalty pm g xs (d # ys) \<le> opt_penalty pm g xs ys + g"
  by (cases xs) (auto simp: algebra_simps)

lemma opt_sub: "opt_penalty pm g (c # xs) (d # ys) \<le> opt_penalty pm g xs ys + pen_of pm c d"
  by simp

lemma opt_lower:
  assumes g: "0 \<le> g"
  shows "spec_alignment a xs ys \<Longrightarrow> opt_penalty pm g xs ys \<le> total_penalty pm g a"
proof (induction a arbitrary: xs ys)
  case Nil
  then show ?case by (simp add: spec_alignment_def total_penalty_def)
next
  case (Cons col a)
  obtain cx cy where col: "col = (cx, cy)" by (cases col)
  show ?case
  proof (cases cx)
    case None
    note cx = None
    show ?thesis
    proof (cases cy)
      case None
      have "spec_alignment a xs ys"
        using Cons.prems by (simp add: spec_alignment_def col cx None)
      then have "opt_penalty pm g xs ys \<le> total_penalty pm g a" by (rule Cons.IH)
      then show ?thesis using g by (simp add: total_penalty_Cons col cx None)
    next
      case (Some d)
      then obtain ys' where ys: "ys = d # ys'" and al: "spec_alignment a xs ys'"
        using Cons.prems by (auto simp: spec_alignment_def col cx)
      have "opt_penalty pm g xs ys' \<le> total_penalty pm g a" using al by (rule Cons.IH)
      moreover have "opt_penalty pm g xs (d # ys') \<le> opt_penalty pm g xs ys' + g" by (rule opt_ins)
      ultimately show ?thesis by (simp add: total_penalty_Cons col cx Some ys)
    qed
  next
    case (Some c)
    note cx = Some
    show ?thesis
    proof (cases cy)
      case None
      then obtain xs' where xs: "xs = c # xs'" and al: "spec_alignment a xs' ys"
        using Cons.prems by (auto simp: spec_alignment_def col cx)
      have "opt_penalty pm g xs' ys \<le> total_penalty pm g a" using al by (rule Cons.IH)
      moreover have "opt_penalty pm g (c # xs') ys \<le> opt_penalty pm g xs' ys + g" by (rule opt_del)
      ultimately show ?thesis by (simp add: total_penalty_Cons col cx None xs)
    next
      case (Some d)
      then obtain xs' ys' where xs: "xs = c # xs'" and ys: "ys = d # ys'"
        and al: "spec_alignment a xs' ys'"
        using Cons.prems by (auto simp: spec_alignment_def col cx)
      have "opt_penalty pm g xs' ys' \<le> total_penalty pm g a" using al by (rule Cons.IH)
      moreover have "opt_penalty pm g (c # xs') (d # ys') \<le> opt_penalty pm g xs' ys' + pen_of pm c d"
        by (rule opt_sub)
      ultimately show ?thesis by (simp only: total_penalty_Cons col cx Some xs ys column_penalty.simps)
    qed
  qed
qed

lemma spec_alignment_ConsI:
  "spec_alignment a xs ys \<Longrightarrow> spec_alignment ((Some c, Some d) # a) (c # xs) (d # ys)"
  "spec_alignment a xs ys \<Longrightarrow> spec_alignment ((Some c, None) # a) (c # xs) ys"
  "spec_alignment a xs ys \<Longrightarrow> spec_alignment ((None, Some d) # a) xs (d # ys)"
  by (simp_all add: spec_alignment_def)

lemma opt_attained: "\<exists>a. spec_alignment a xs ys \<and> total_penalty pm g a = opt_penalty pm g xs ys"
proof (induction pm g xs ys rule: opt_penalty.induct)
  case (1 pm g ys)
  have "spec_alignment (map (\<lambda>b. (None, Some b)) ys) [] ys \<and>
        total_penalty pm g (map (\<lambda>b. (None, Some b)) ys) = int (length ys) * g"
    by (induction ys) (simp_all add: spec_alignment_def total_penalty_def algebra_simps)
  then show ?case by (simp only: opt_penalty.simps) blast
next
  case (2 pm g a xs)
  have "spec_alignment (map (\<lambda>c. (Some c, None)) zs) zs [] \<and>
        total_penalty pm g (map (\<lambda>c. (Some c, None)) zs) = int (length zs) * g" for zs
    by (induction zs) (simp_all add: spec_alignment_def total_penalty_def algebra_simps)
  then show ?case by (simp only: opt_penalty.simps) blast
next
  case (3 pm g a xs b ys)
  from 3(1) obtain a1 where a1: "spec_alignment a1 xs ys" "total_penalty pm g a1 = opt_penalty pm g xs ys"
    by blast
  from 3(2) obtain a2 where a2: "spec_alignment a2 xs (b # ys)"
      "total_penalty pm g a2 = opt_penalty pm g xs (b # ys)"
    by blast
  from 3(3) obtain a3 where a3: "spec_alignment a3 (a # xs) ys"
      "total_penalty pm g a3 = opt_penalty pm g (a # xs) ys"
    by blast
  let ?r1 = "opt_penalty pm g xs ys + pen_of pm a b"
  let ?r2 = "opt_penalty pm g xs (b # ys) + g"
  let ?r3 = "opt_penalty pm g (a # xs) ys + g"
  have c1: "spec_alignment ((Some a, Some b) # a1) (a # xs) (b # ys)"
      "total_penalty pm g ((Some a, Some b) # a1) = ?r1"
    using a1 by (simp_all add: spec_alignment_ConsI total_penalty_Cons)
  have c2: "spec_alignment ((Some a, None) # a2) (a # xs) (b # ys)"
      "total_penalty pm g ((Some a, None) # a2) = ?r2"
    using a2 by (simp_all add: spec_alignment_ConsI total_penalty_Cons)
  have c3: "spec_alignment ((None, Some b) # a3) (a # xs) (b # ys)"
      "total_penalty pm g ((None, Some b) # a3) = ?r3"
    using a3 by (simp_all add: spec_alignment_ConsI total_penalty_Cons)
  have "opt_penalty pm g (a # xs) (b # ys) = ?r1 \<or> opt_penalty pm g (a # xs) (b # ys) = ?r2 \<or>
        opt_penalty pm g (a # xs) (b # ys) = ?r3"
    by (simp add: min_def)
  then show ?case using c1 c2 c3 by metis
qed

lemma opt_minimum:
  assumes "0 \<le> g"
  shows "(\<exists>a. spec_alignment a x y \<and> total_penalty pm g a = opt_penalty pm g (rev x) (rev y)) \<and>
         (\<forall>a. spec_alignment a x y \<longrightarrow> opt_penalty pm g (rev x) (rev y) \<le> total_penalty pm g a)"
proof
  obtain a where a: "spec_alignment a (rev x) (rev y)"
      "total_penalty pm g a = opt_penalty pm g (rev x) (rev y)"
    using opt_attained by blast
  from a(1) have "spec_alignment (rev a) x y"
    using spec_alignment_rev [of a "rev x" "rev y"] by simp
  moreover have "total_penalty pm g (rev a) = opt_penalty pm g (rev x) (rev y)"
    using a(2) by (simp add: total_penalty_rev)
  ultimately show "\<exists>a. spec_alignment a x y \<and> total_penalty pm g a = opt_penalty pm g (rev x) (rev y)"
    by blast
next
  show "\<forall>a. spec_alignment a x y \<longrightarrow> opt_penalty pm g (rev x) (rev y) \<le> total_penalty pm g a"
  proof (intro allI impI)
    fix a assume "spec_alignment a x y"
    then have "spec_alignment (rev a) (rev x) (rev y)" by (rule spec_alignment_rev)
    with assms have "opt_penalty pm g (rev x) (rev y) \<le> total_penalty pm g (rev a)" by (rule opt_lower)
    then show "opt_penalty pm g (rev x) (rev y) \<le> total_penalty pm g a"
      by (simp add: total_penalty_rev)
  qed
qed

lemma rev_take_Suc:
  "1 \<le> i \<Longrightarrow> i \<le> length xs \<Longrightarrow> rev (take i xs) = xs ! (i - 1) # rev (take (i - 1) xs)"
  using take_Suc_conv_app_nth [of "i - 1" xs] by simp

lemma table_cell_opt:
  assumes inv: "fill_inv x y g pm t (length x + 1) 1"
  shows "i \<le> length x \<Longrightarrow> j \<le> length y \<Longrightarrow> t ! i ! j = opt_penalty pm g (rev (take i x)) (rev (take j y))"
proof (induction "i + j" arbitrary: i j rule: less_induct)
  case less
  show ?case
  proof (cases "i = 0")
    case True
    have "t ! 0 ! j = int j * g" using inv less.prems(2) by (rule fill_inv_row0)
    then show ?thesis using True less.prems by simp
  next
    case False
    note i0 = False
    show ?thesis
    proof (cases "j = 0")
      case True
      have "t ! i ! 0 = int i * g" using inv less.prems(1) by (rule fill_inv_col0)
      then show ?thesis using True less.prems by (simp add: opt_Nil2)
    next
      case False
      have ij: "1 \<le> i" "1 \<le> j" using i0 False by simp_all
      have "recurrence_at x y g pm t i j"
        using inv ij less.prems by (intro fill_inv_rec [OF inv]) auto
      then have rec: "t ! i ! j = min (t ! (i - 1) ! (j - 1) + pen_of pm (x ! (i - 1)) (y ! (j - 1)))
                   (min (t ! (i - 1) ! j + g) (t ! i ! (j - 1) + g))"
        by (simp only: recurrence_at_def)
      have h1: "t ! (i - 1) ! (j - 1) = opt_penalty pm g (rev (take (i - 1) x)) (rev (take (j - 1) y))"
        using ij less.prems by (intro less.hyps) auto
      have h2: "t ! (i - 1) ! j = opt_penalty pm g (rev (take (i - 1) x)) (rev (take j y))"
        using ij less.prems by (intro less.hyps) auto
      have h3: "t ! i ! (j - 1) = opt_penalty pm g (rev (take i x)) (rev (take (j - 1) y))"
        using ij less.prems by (intro less.hyps) auto
      have rx: "rev (take i x) = x ! (i - 1) # rev (take (i - 1) x)"
        using ij(1) less.prems(1) by (rule rev_take_Suc)
      have ry: "rev (take j y) = y ! (j - 1) # rev (take (j - 1) y)"
        using ij(2) less.prems(2) by (rule rev_take_Suc)
      have "opt_penalty pm g (rev (take i x)) (rev (take j y)) =
          min (opt_penalty pm g (rev (take (i - 1) x)) (rev (take (j - 1) y)) + pen_of pm (x ! (i - 1)) (y ! (j - 1)))
            (min (opt_penalty pm g (rev (take (i - 1) x)) (rev (take j y)) + g)
                 (opt_penalty pm g (rev (take i x)) (rev (take (j - 1) y)) + g))"
        by (simp only: rx ry opt_penalty.simps)
      then show ?thesis using rec h1 h2 h3 by (simp only:)
    qed
  qed
qed

lemma table_nonneg:
  assumes inv: "fill_inv x y g pm t (length x + 1) 1" and g: "0 \<le> g"
    and pen: "\<And>a b. a \<in> set x \<Longrightarrow> b \<in> set y \<Longrightarrow> 0 \<le> pen_of pm a b"
  shows "i \<le> length x \<Longrightarrow> j \<le> length y \<Longrightarrow> 0 \<le> t ! i ! j"
proof (induction "i + j" arbitrary: i j rule: less_induct)
  case less
  show ?case
  proof (cases "i = 0")
    case True
    have "t ! 0 ! j = int j * g" using inv less.prems(2) by (rule fill_inv_row0)
    then show ?thesis using True g by simp
  next
    case False
    note i0 = False
    show ?thesis
    proof (cases "j = 0")
      case True
      have "t ! i ! 0 = int i * g" using inv less.prems(1) by (rule fill_inv_col0)
      then show ?thesis using True g by simp
    next
      case False
      have ij: "1 \<le> i" "1 \<le> j" using i0 False by simp_all
      have "recurrence_at x y g pm t i j"
        using inv ij less.prems by (intro fill_inv_rec [OF inv]) auto
      then have rec: "t ! i ! j = min (t ! (i - 1) ! (j - 1) + pen_of pm (x ! (i - 1)) (y ! (j - 1)))
                   (min (t ! (i - 1) ! j + g) (t ! i ! (j - 1) + g))"
        by (simp only: recurrence_at_def)
      have h1: "0 \<le> t ! (i - 1) ! (j - 1)"
        using ij less.prems by (intro less.hyps) auto
      have h2: "0 \<le> t ! (i - 1) ! j"
        using ij less.prems by (intro less.hyps) auto
      have h3: "0 \<le> t ! i ! (j - 1)"
        using ij less.prems by (intro less.hyps) auto
      have "x ! (i - 1) \<in> set x" "y ! (j - 1) \<in> set y"
        using ij less.prems by auto
      then have "0 \<le> pen_of pm (x ! (i - 1)) (y ! (j - 1))" by (rule pen)
      then show ?thesis using h1 h2 h3 g unfolding rec by simp
    qed
  qed
qed

section \<open>Missing penalty entries\<close>

lemma pen_lookup_error: "pen_lookup pm a b = Inl e \<Longrightarrow> e = KeyError"
  by (auto simp: pen_lookup_def split: option.splits)

lemma fill_row_KeyError:
  "\<exists>j\<in>set js. pen_lookup pm (x ! (i - 1)) (y ! (j - 1)) = Inl KeyError \<Longrightarrow>
   fill_row x y g pm i js t = Inl KeyError"
proof (induction js arbitrary: t)
  case Nil
  then show ?case by simp
next
  case (Cons j js)
  show ?case
  proof (cases "pen_lookup pm (x ! (i - 1)) (y ! (j - 1))")
    case (Inl e)
    then have "e = KeyError" by (rule pen_lookup_error)
    with Inl show ?thesis by (simp add: Let_def)
  next
    case (Inr p)
    with Cons.prems have "\<exists>j\<in>set js. pen_lookup pm (x ! (i - 1)) (y ! (j - 1)) = Inl KeyError"
      by auto
    then have "\<And>t. fill_row x y g pm i js t = Inl KeyError" by (rule Cons.IH)
    with Inr show ?thesis by (simp add: Let_def)
  qed
qed

lemma fill_row_error: "fill_row x y g pm i js t = Inl e \<Longrightarrow> e = KeyError"
proof (induction js arbitrary: t)
  case Nil
  then show ?case by simp
next
  case (Cons j js)
  show ?case
  proof (cases "pen_lookup pm (x ! (i - 1)) (y ! (j - 1))")
    case (Inl e')
    then have "e' = KeyError" by (rule pen_lookup_error)
    with Inl Cons.prems show ?thesis by (simp add: Let_def)
  next
    case (Inr p)
    with Cons.prems show ?thesis by (auto simp: Let_def dest: Cons.IH)
  qed
qed

lemma fill_rows_KeyError:
  "\<exists>i\<in>set is. \<exists>j\<in>set [1..<n + 1]. pen_lookup pm (x ! (i - 1)) (y ! (j - 1)) = Inl KeyError \<Longrightarrow>
   fill_rows x y g pm is n t = Inl KeyError"
proof (induction "is" arbitrary: t)
  case Nil
  then show ?case by simp
next
  case (Cons i "is")
  show ?case
  proof (cases "fill_row x y g pm i [1..<n + 1] t")
    case (Inl e)
    then have "e = KeyError" by (rule fill_row_error)
    with Inl show ?thesis by simp
  next
    case (Inr t')
    have no: "\<not> (\<exists>j\<in>set [1..<n + 1]. pen_lookup pm (x ! (i - 1)) (y ! (j - 1)) = Inl KeyError)"
    proof
      assume "\<exists>j\<in>set [1..<n + 1]. pen_lookup pm (x ! (i - 1)) (y ! (j - 1)) = Inl KeyError"
      then have "fill_row x y g pm i [1..<n + 1] t = Inl KeyError" by (rule fill_row_KeyError)
      with Inr show False by simp
    qed
    from Cons.prems obtain i' where i': "i' \<in> set (i # is)"
        "\<exists>j\<in>set [1..<n + 1]. pen_lookup pm (x ! (i' - 1)) (y ! (j - 1)) = Inl KeyError"
      by blast
    with no have "i' \<noteq> i" by blast
    with i'(1) have "i' \<in> set is" by simp
    with i'(2) have
      "\<exists>i\<in>set is. \<exists>j\<in>set [1..<n + 1]. pen_lookup pm (x ! (i - 1)) (y ! (j - 1)) = Inl KeyError"
      by blast
    then have "fill_rows x y g pm is n t' = Inl KeyError" by (rule Cons.IH)
    with Inr show ?thesis by simp
  qed
qed

lemma build_table_KeyError:
  assumes a: "a \<in> set x" and b: "b \<in> set y" and miss: "pen_lookup pm a b = Inl KeyError"
  shows "build_table x y g pm = Inl KeyError"
proof -
  obtain i where i: "i < length x" "x ! i = a" using a by (auto simp: in_set_conv_nth)
  obtain j where j: "j < length y" "y ! j = b" using b by (auto simp: in_set_conv_nth)
  have "Suc i \<in> set [1..<length x + 1]" "Suc j \<in> set [1..<length y + 1]"
    using i j by auto
  moreover have "pen_lookup pm (x ! (Suc i - 1)) (y ! (Suc j - 1)) = Inl KeyError"
    using i j miss by simp
  ultimately have "\<exists>i\<in>set [1..<length x + 1]. \<exists>j\<in>set [1..<length y + 1].
      pen_lookup pm (x ! (i - 1)) (y ! (j - 1)) = Inl KeyError"
    by blast
  then show ?thesis unfolding build_table_seeded by (rule fill_rows_KeyError)
qed

section \<open>The backtracking loop and the checks\<close>

text \<open>Case 1 never completes: whenever it is entered, line 110 raises.\<close>

lemma diagonal_case_raises:
  assumes "1 \<le> i" "1 \<le> j"
    and "dp_get dp (i - 1) (j - 1) = Inr d"
    and "pen_lookup pen_map (x ! (i - 1)) (y ! (j - 1)) = Inr p"
    and "dp_get dp (i - 1) j = Inr u"
    and "dp_get dp i j = Inr (d + p)"
  shows "backtrack x y gap_pen pen_map dp i j sx sy = Inl TypeError"
  using assms by (subst backtrack.simps) (simp add: str_isub_def)

text \<open>
  The three checks look at the sequences, the gap penalty and the emptiness of the
  penalty map only; an input that passes them is never answered with the empty list,
  whatever the signs of the penalties.
\<close>

lemma checks_passed_not_empty_list:
  assumes "x \<noteq> []" "y \<noteq> []" "0 \<le> gap_pen" "pen_map \<noteq> []"
  shows "sequence_alignment x y gap_pen pen_map \<noteq> Inr []"
  using assms
  by (auto simp: sequence_alignment_def reconstruct_optimal_alignment_def
      split: sum.splits prod.splits if_splits)

section \<open>The claims\<close>

text \<open>
  Claim C1: for non-empty \<open>x\<close> and \<open>y\<close>, a gap penalty that is not negative and a
  penalty map with a non-negative entry for every symbol of \<open>x\<close> against every symbol
  of \<open>y\<close>, the table builder returns a table whose cell \<open>(m, n)\<close> is the minimum
  total penalty over the alignments of \<open>x\<close> and \<open>y\<close>: some alignment has that total,
  and no alignment has a smaller one.
\<close>

theorem table_final_cell_is_minimum:
  assumes "x \<noteq> []" "y \<noteq> []" "0 \<le> gap_pen"
    and "\<forall>a\<in>set x. \<forall>b\<in>set y. \<exists>p\<ge>0. pen_lookup pen_map a b = Inr p"
  shows "\<exists>t. build_table x y gap_pen pen_map = Inr t \<and>
           (\<exists>a. spec_alignment a x y \<and>
                total_penalty pen_map gap_pen a = t ! length x ! length y) \<and>
           (\<forall>a. spec_alignment a x y \<longrightarrow>
                t ! length x ! length y \<le> total_penalty pen_map gap_pen a)"
proof -
  have "pen_total pen_map x y"
    using assms(4) unfolding pen_total_def by blast
  then obtain t where t: "build_table x y gap_pen pen_map = Inr t"
      "fill_inv x y gap_pen pen_map t (length x + 1) 1"
    using build_table_spec by blast
  have "t ! length x ! length y =
      opt_penalty pen_map gap_pen (rev (take (length x) x)) (rev (take (length y) y))"
    using t(2) by (rule table_cell_opt) simp_all
  then have "t ! length x ! length y = opt_penalty pen_map gap_pen (rev x) (rev y)"
    by simp
  note eq = this
  have attained: "\<exists>a. spec_alignment a x y \<and>
      total_penalty pen_map gap_pen a = opt_penalty pen_map gap_pen (rev x) (rev y)"
    using opt_minimum [OF assms(3)] by (rule conjunct1)
  have least: "\<forall>a. spec_alignment a x y \<longrightarrow>
      opt_penalty pen_map gap_pen (rev x) (rev y) \<le> total_penalty pen_map gap_pen a"
    using opt_minimum [OF assms(3)] by (rule conjunct2)
  show ?thesis
  proof (rule exI [of _ t], intro conjI)
    show "build_table x y gap_pen pen_map = Inr t" by (rule t(1))
    show "\<exists>a. spec_alignment a x y \<and>
        total_penalty pen_map gap_pen a = t ! length x ! length y"
      unfolding eq by (rule attained)
    show "\<forall>a. spec_alignment a x y \<longrightarrow>
        t ! length x ! length y \<le> total_penalty pen_map gap_pen a"
      unfolding eq by (rule least)
  qed
qed

theorem table_final_cell_is_minimum_witness:
  "build_table ''AG'' ''A'' 2 [(''A'', [(''A'', 0)]), (''G'', [(''A'', 3)])]
     = Inr [[0, 2], [2, 0], [4, 2]] \<and>
   (\<exists>t. build_table ''AG'' ''A'' 2 [(''A'', [(''A'', 0)]), (''G'', [(''A'', 3)])] = Inr t \<and>
      (\<exists>a. spec_alignment a ''AG'' ''A'' \<and>
           total_penalty [(''A'', [(''A'', 0)]), (''G'', [(''A'', 3)])] 2 a
             = t ! length ''AG'' ! length ''A'') \<and>
      (\<forall>a. spec_alignment a ''AG'' ''A'' \<longrightarrow>
           t ! length ''AG'' ! length ''A''
             \<le> total_penalty [(''A'', [(''A'', 0)]), (''G'', [(''A'', 3)])] 2 a))"
proof (rule conjI)
  show "build_table ''AG'' ''A'' 2 [(''A'', [(''A'', 0)]), (''G'', [(''A'', 3)])]
     = Inr [[0, 2], [2, 0], [4, 2]]"
    by code_simp
next
  show "\<exists>t. build_table ''AG'' ''A'' 2 [(''A'', [(''A'', 0)]), (''G'', [(''A'', 3)])] = Inr t \<and>
      (\<exists>a. spec_alignment a ''AG'' ''A'' \<and>
           total_penalty [(''A'', [(''A'', 0)]), (''G'', [(''A'', 3)])] 2 a
             = t ! length ''AG'' ! length ''A'') \<and>
      (\<forall>a. spec_alignment a ''AG'' ''A'' \<longrightarrow>
           t ! length ''AG'' ! length ''A''
             \<le> total_penalty [(''A'', [(''A'', 0)]), (''G'', [(''A'', 3)])] 2 a)"
    by (rule table_final_cell_is_minimum) (simp_all add: pen_lookup_def)
qed

text \<open>
  Claim C5: for every valid input the completed table has \<open>m + 1\<close> rows of \<open>n + 1\<close>
  cells, \<open>cell(i, 0) = i * gap_pen\<close>, \<open>cell(0, j) = j * gap_pen\<close>, every cell with
  \<open>i \<ge> 1\<close> and \<open>j \<ge> 1\<close> is the minimum of its three candidates, and no cell is
  negative.
\<close>

theorem cost_table_invariant:
  assumes "x \<noteq> []" "y \<noteq> []" "0 \<le> gap_pen"
    and "\<forall>a\<in>set x. \<forall>b\<in>set y. \<exists>p\<ge>0. pen_lookup pen_map a b = Inr p"
  shows "\<exists>t. build_table x y gap_pen pen_map = Inr t \<and>
           length t = length x + 1 \<and>
           (\<forall>i\<le>length x. length (t ! i) = length y + 1) \<and>
           (\<forall>i\<le>length x. t ! i ! 0 = int i * gap_pen) \<and>
           (\<forall>j\<le>length y. t ! 0 ! j = int j * gap_pen) \<and>
           (\<forall>i j. 1 \<le> i \<and> i \<le> length x \<and> 1 \<le> j \<and> j \<le> length y \<longrightarrow>
              (\<exists>p. pen_lookup pen_map (x ! (i - 1)) (y ! (j - 1)) = Inr p \<and>
                   t ! i ! j = min (t ! (i - 1) ! (j - 1) + p)
                                 (min (t ! (i - 1) ! j + gap_pen) (t ! i ! (j - 1) + gap_pen)))) \<and>
           (\<forall>i\<le>length x. \<forall>j\<le>length y. 0 \<le> t ! i ! j)"
proof -
  have tot: "pen_total pen_map x y"
    using assms(4) unfolding pen_total_def by blast
  then obtain t where t: "build_table x y gap_pen pen_map = Inr t"
    and inv: "fill_inv x y gap_pen pen_map t (length x + 1) 1"
    using build_table_spec by blast
  have dims: "table_dims t (length x) (length y)" using inv by (rule fill_inv_dims)
  have len: "length t = length x + 1" using dims by (simp add: table_dims_def)
  have rows: "\<forall>i\<le>length x. length (t ! i) = length y + 1"
    using dims by (simp add: table_dims_def)
  have col0: "\<forall>i\<le>length x. t ! i ! 0 = int i * gap_pen"
    using inv by (simp add: fill_inv_col0)
  have row0: "\<forall>j\<le>length y. t ! 0 ! j = int j * gap_pen"
    using inv by (simp add: fill_inv_row0)
  have rec: "\<exists>p. pen_lookup pen_map (x ! (i - 1)) (y ! (j - 1)) = Inr p \<and>
                   t ! i ! j = min (t ! (i - 1) ! (j - 1) + p)
                                 (min (t ! (i - 1) ! j + gap_pen) (t ! i ! (j - 1) + gap_pen))"
    if ij: "1 \<le> i" "i \<le> length x" "1 \<le> j" "j \<le> length y" for i j
  proof -
    obtain p where p: "pen_lookup pen_map (x ! (i - 1)) (y ! (j - 1)) = Inr p"
      using pen_total_nth [OF tot ij] by blast
    then have pen: "pen_of pen_map (x ! (i - 1)) (y ! (j - 1)) = p"
      by (simp add: pen_of_def)
    have "i < length x + 1 \<or> i = length x + 1 \<and> j < 1" using ij by simp
    with inv ij(1,3,4) have "recurrence_at x y gap_pen pen_map t i j"
      by (rule fill_inv_rec)
    then have "t ! i ! j = min (t ! (i - 1) ! (j - 1) + p)
                                 (min (t ! (i - 1) ! j + gap_pen) (t ! i ! (j - 1) + gap_pen))"
      unfolding recurrence_at_def pen .
    with p show ?thesis by blast
  qed
  have pos: "0 \<le> pen_of pen_map a b" if "a \<in> set x" "b \<in> set y" for a b
  proof -
    from that assms(4) obtain p where "0 \<le> p" "pen_lookup pen_map a b = Inr p" by blast
    then show ?thesis by (simp add: pen_of_def)
  qed
  have nonneg: "\<forall>i\<le>length x. \<forall>j\<le>length y. 0 \<le> t ! i ! j"
  proof (intro allI impI)
    fix i j assume "i \<le> length x" "j \<le> length y"
    with inv assms(3) pos show "0 \<le> t ! i ! j" by (rule table_nonneg)
  qed
  have recs: "\<forall>i j. 1 \<le> i \<and> i \<le> length x \<and> 1 \<le> j \<and> j \<le> length y \<longrightarrow>
              (\<exists>p. pen_lookup pen_map (x ! (i - 1)) (y ! (j - 1)) = Inr p \<and>
                   t ! i ! j = min (t ! (i - 1) ! (j - 1) + p)
                                 (min (t ! (i - 1) ! j + gap_pen) (t ! i ! (j - 1) + gap_pen)))"
  proof (intro allI impI)
    fix i j
    assume "1 \<le> i \<and> i \<le> length x \<and> 1 \<le> j \<and> j \<le> length y"
    then have "1 \<le> i" "i \<le> length x" "1 \<le> j" "j \<le> length y" by simp_all
    then show "\<exists>p. pen_lookup pen_map (x ! (i - 1)) (y ! (j - 1)) = Inr p \<and>
                   t ! i ! j = min (t ! (i - 1) ! (j - 1) + p)
                                 (min (t ! (i - 1) ! j + gap_pen) (t ! i ! (j - 1) + gap_pen))"
      by (rule rec)
  qed
  show ?thesis
    by (intro exI conjI) (rule t len rows col0 row0 recs nonneg)+
qed

theorem cost_table_invariant_witness:
  "build_table ''AG'' ''AC'' 2
       [(''A'', [(''A'', 0), (''C'', 3)]), (''G'', [(''A'', 3), (''C'', 3)])]
     = Inr [[0, 2, 4], [2, 0, 2], [4, 2, 3]] \<and>
   (\<exists>t. build_table ''AG'' ''AC'' 2
            [(''A'', [(''A'', 0), (''C'', 3)]), (''G'', [(''A'', 3), (''C'', 3)])] = Inr t \<and>
        length t = length ''AG'' + 1 \<and>
        (\<forall>i\<le>length ''AG''. length (t ! i) = length ''AC'' + 1) \<and>
        (\<forall>i\<le>length ''AG''. t ! i ! 0 = int i * 2) \<and>
        (\<forall>j\<le>length ''AC''. t ! 0 ! j = int j * 2) \<and>
        (\<forall>i j. 1 \<le> i \<and> i \<le> length ''AG'' \<and> 1 \<le> j \<and> j \<le> length ''AC'' \<longrightarrow>
           (\<exists>p. pen_lookup [(''A'', [(''A'', 0), (''C'', 3)]), (''G'', [(''A'', 3), (''C'', 3)])]
                  (''AG'' ! (i - 1)) (''AC'' ! (j - 1)) = Inr p \<and>
                t ! i ! j = min (t ! (i - 1) ! (j - 1) + p)
                              (min (t ! (i - 1) ! j + 2) (t ! i ! (j - 1) + 2)))) \<and>
        (\<forall>i\<le>length ''AG''. \<forall>j\<le>length ''AC''. 0 \<le> t ! i ! j))"
proof (rule conjI)
  show "build_table ''AG'' ''AC'' 2
       [(''A'', [(''A'', 0), (''C'', 3)]), (''G'', [(''A'', 3), (''C'', 3)])]
     = Inr [[0, 2, 4], [2, 0, 2], [4, 2, 3]]"
    by code_simp
qed (rule cost_table_invariant; simp add: pen_lookup_def)

text \<open>
  Claim C6: at a backtracking position \<open>(i, j)\<close> with \<open>i \<ge> 1\<close> and \<open>j \<ge> 1\<close> the
  three cases are tried in a fixed order. When the cell equals the diagonal candidate,
  Case 1 runs, whether or not the up-gap or left-gap candidate ties with it; otherwise,
  when the cell equals the up-gap candidate, the up-gap step is taken, whether or not the
  left-gap candidate ties; the left-gap step is taken only when neither equals the cell.
  (What Case 1 then does on line 110 is the subject of claim C3.)
\<close>

theorem backtrack_tie_break:
  assumes "1 \<le> i" "1 \<le> j"
    and "dp_get dp (i - 1) (j - 1) = Inr d"
    and "pen_lookup pen_map (x ! (i - 1)) (y ! (j - 1)) = Inr p"
    and "dp_get dp (i - 1) j = Inr u"
    and "dp_get dp i j = Inr result"
  shows "backtrack x y gap_pen pen_map dp i j sx sy =
     (if result = d + p then
        (case str_isub y 1 of
           Inl e \<Rightarrow> Inl e
         | Inr y' \<Rightarrow>
             backtrack x y' gap_pen pen_map dp (i - 1) j (x ! (i - 1) # sx) (y ! (j - 1) # sy))
      else if result = u + gap_pen then
        backtrack x y gap_pen pen_map dp (i - 1) j (x ! (i - 1) # sx) (CHR '' '' # sy)
      else
        backtrack x y gap_pen pen_map dp i (j - 1) (CHR '' '' # sx) (y ! (j - 1) # sy))"
  using assms by (subst backtrack.simps) simp

theorem backtrack_tie_break_witness:
  "backtrack ''A'' ''B'' 1 [(''A'', [(''B'', 2)])] [[0, 1], [1, 2]] 1 1 [] [] = Inl TypeError \<and>
   backtrack ''A'' ''B'' 1 [(''A'', [(''B'', 3)])] [[0, 1], [1, 2]] 1 1 [] []
     = Inr (0, 1, ''A'', '' '')"
proof -
  have "backtrack ''A'' ''B'' 1 [(''A'', [(''B'', 2)])] [[0, 1], [1, 2]] 1 1 [] [] = Inl TypeError"
    by (subst backtrack_tie_break [where d = 0 and p = 2 and u = 1 and result = 2])
       (simp_all add: dp_get_def pen_lookup_def str_isub_def backtrack.simps)
  moreover have "backtrack ''A'' ''B'' 1 [(''A'', [(''B'', 3)])] [[0, 1], [1, 2]] 1 1 [] []
     = Inr (0, 1, ''A'', '' '')"
    by (subst backtrack_tie_break [where d = 0 and p = 3 and u = 1 and result = 2])
       (simp_all add: dp_get_def pen_lookup_def backtrack.simps)
  ultimately show ?thesis by simp
qed

text \<open>
  Claim C7: an input that violates a precondition yields no computed table. With an
  empty \<open>x\<close> or \<open>y\<close>, a negative gap penalty or an empty penalty map the function
  returns the empty list. When the penalty map lacks an entry for a symbol of \<open>x\<close>
  against a symbol of \<open>y\<close>, the table construction raises KeyError, and so does the
  function on an input that passes the three checks: a missing entry is an error and
  never a default penalty.
\<close>

theorem precondition_violation_no_result:
  "(x = [] \<or> y = [] \<or> gap_pen < 0 \<or> pen_map = []
      \<longrightarrow> sequence_alignment x y gap_pen pen_map = Inr []) \<and>
   ((\<exists>a\<in>set x. \<exists>b\<in>set y. pen_lookup pen_map a b = Inl KeyError)
      \<longrightarrow> build_table x y gap_pen pen_map = Inl KeyError) \<and>
   (x \<noteq> [] \<and> y \<noteq> [] \<and> 0 \<le> gap_pen \<and> pen_map \<noteq> [] \<and>
    (\<exists>a\<in>set x. \<exists>b\<in>set y. pen_lookup pen_map a b = Inl KeyError)
      \<longrightarrow> sequence_alignment x y gap_pen pen_map = Inl KeyError)"
proof (intro conjI impI)
  assume "x = [] \<or> y = [] \<or> gap_pen < 0 \<or> pen_map = []"
  then show "sequence_alignment x y gap_pen pen_map = Inr []"
    by (auto simp: sequence_alignment_def)
next
  assume "\<exists>a\<in>set x. \<exists>b\<in>set y. pen_lookup pen_map a b = Inl KeyError"
  then show "build_table x y gap_pen pen_map = Inl KeyError"
    using build_table_KeyError by blast
next
  assume h: "x \<noteq> [] \<and> y \<noteq> [] \<and> 0 \<le> gap_pen \<and> pen_map \<noteq> [] \<and>
    (\<exists>a\<in>set x. \<exists>b\<in>set y. pen_lookup pen_map a b = Inl KeyError)"
  then have "build_table x y gap_pen pen_map = Inl KeyError"
    using build_table_KeyError by blast
  with h show "sequence_alignment x y gap_pen pen_map = Inl KeyError"
    by (simp add: sequence_alignment_def)
qed

theorem precondition_violation_no_result_witness:
  "sequence_alignment ''AC'' '''' 2 [(''A'', [(''A'', 0)])] = Inr [] \<and>
   sequence_alignment ''AC'' ''A'' (- 1) [(''A'', [(''A'', 0)])] = Inr [] \<and>
   sequence_alignment ''AC'' ''A'' 2 [] = Inr [] \<and>
   build_table ''AC'' ''A'' 2 [(''A'', [(''A'', 0)])] = Inl KeyError \<and>
   sequence_alignment ''AC'' ''A'' 2 [(''A'', [(''A'', 0)])] = Inl KeyError"
proof -
  note basic = precondition_violation_no_result [THEN conjunct1, THEN mp]
  note table = precondition_violation_no_result [THEN conjunct2, THEN conjunct1, THEN mp]
  note missing = precondition_violation_no_result [THEN conjunct2, THEN conjunct2, THEN mp]
  have "sequence_alignment ''AC'' '''' 2 [(''A'', [(''A'', 0)])] = Inr []"
    by (rule basic) simp
  moreover have "sequence_alignment ''AC'' ''A'' (- 1) [(''A'', [(''A'', 0)])] = Inr []"
    by (rule basic) simp
  moreover have "sequence_alignment ''AC'' ''A'' 2 [] = Inr []"
    by (rule basic) simp
  moreover have "build_table ''AC'' ''A'' 2 [(''A'', [(''A'', 0)])] = Inl KeyError"
    by (rule table) (simp add: pen_lookup_def)
  moreover have "sequence_alignment ''AC'' ''A'' 2 [(''A'', [(''A'', 0)])] = Inl KeyError"
    by (rule missing) (simp add: pen_lookup_def)
  ultimately show ?thesis by (intro conjI)
qed

lemma scenario_table:
  "build_table ''AGGGCT'' ''AGGCA'' 2 scenario_pen_map =
     Inr [[0, 2, 4, 6, 8, 10], [2, 0, 2, 4, 6, 8], [4, 2, 0, 2, 4, 6],
          [6, 4, 2, 0, 2, 4], [8, 6, 4, 2, 3, 5], [10, 8, 6, 4, 2, 4],
          [12, 10, 8, 6, 4, 5]]"
  by code_simp

text \<open>
  Claim C9 fails on the code. For \<open>X = AGGGCT\<close>, \<open>Y = AGGCA\<close>, gap penalty 2 and the
  penalty map with 0 for identical and 3 for distinct symbols, the table is built and its
  cell \<open>(m, n)\<close> is 5, as the claim says; but the function returns no result on this
  input. The first backtracking step, at \<open>(6, 5)\<close>, finds the cell equal to the diagonal
  candidate \<open>cell(5, 4) + 3 = 5\<close>, Case 1 runs and line 110 raises TypeError, on
  every invocation.
\<close>

theorem scenario_penalty_and_outcome:
  "(\<exists>t. build_table ''AGGGCT'' ''AGGCA'' 2 scenario_pen_map = Inr t \<and>
        t ! length ''AGGGCT'' ! length ''AGGCA'' = 5) \<and>
   sequence_alignment ''AGGGCT'' ''AGGCA'' 2 scenario_pen_map = Inl TypeError"
proof (rule conjI)
  show "\<exists>t. build_table ''AGGGCT'' ''AGGCA'' 2 scenario_pen_map = Inr t \<and>
        t ! length ''AGGGCT'' ! length ''AGGCA'' = 5"
    by (simp add: scenario_table)
next
  show "sequence_alignment ''AGGGCT'' ''AGGCA'' 2 scenario_pen_map = Inl TypeError"
    by code_simp
qed

text \<open>
  Claim C8, as amended: with an empty first sequence the function returns the empty list,
  whatever the other arguments; it raises no error and returns no single-gap alignment.
\<close>

theorem empty_first_sequence_returns_empty_list:
  "sequence_alignment [] y gap_pen pen_map = Inr []"
  by (simp add: sequence_alignment_def)

text \<open>
  The claim as stated asks for an error outcome on \<open>X = ""\<close>, \<open>Y = "A"\<close>; the
  function returns normally, with the empty list.
\<close>

theorem empty_first_sequence_counterexample:
  "\<not> isl (sequence_alignment '''' ''A'' 2 [(''A'', [(''A'', 0)])]) \<and>
   sequence_alignment '''' ''A'' 2 [(''A'', [(''A'', 0)])] = Inr []"
  by (simp add: sequence_alignment_def)

text \<open>
  Claim C2 fails on the code. For \<open>X = A\<close>, \<open>Y = B\<close>, gap penalty 1 and penalty 3
  for the pair, the function returns a first row of length 2 and a second row of length
  1, and the second row holds no symbol of \<open>Y\<close>.
\<close>

theorem reconstruction_unequal_lengths:
  "sequence_alignment ''A'' ''B'' 1 [(''A'', [(''B'', 3)])] = Inr ['' A'', '' '']"
  by code_simp

text \<open>
  Claim C3 fails on the code. For \<open>X = A\<close>, \<open>Y = A\<close> with penalty 0 for the pair the
  cell equals the diagonal candidate, Case 1 runs, and its last statement (line 110,
  \<^verbatim>\<open>y -= 1\<close> on a string) raises TypeError.
\<close>

theorem diagonal_step_raises:
  "sequence_alignment ''A'' ''A'' 1 [(''A'', [(''A'', 0)])] = Inl TypeError"
  by code_simp

text \<open>
  Claim C4 fails on the code. The loop left with \<open>j > 0\<close> prepends \<open>j\<close> gap markers
  to \<open>sx\<close> and nothing to \<open>sy\<close>: for \<open>X = A\<close>, \<open>Y = BC\<close> the second row holds
  neither B nor C. The loop left with \<open>i > 0\<close> (here on a table handed to the helper
  directly) prepends \<open>i\<close> gap markers to \<open>sy\<close> and nothing to \<open>sx\<close>.
\<close>

theorem trailing_pad_drops_symbols:
  "sequence_alignment ''A'' ''BC'' 1 [(''A'', [(''B'', 3), (''C'', 3)])] = Inr [''  A'', '' ''] \<and>
   reconstruct_optimal_alignment ''A'' ''B'' 1 [(''A'', [(''B'', 3)])] [[0, 1], [1, 0]]
     = Inr ['' '', '' B'']"
  by code_simp

text \<open>
  Claim C10 fails on the code. A negative penalty passes the checks and enters the table,
  here as the cell \<open>(1, 1) = -1\<close>, but the function does not return a result: the
  cell equals the diagonal candidate and line 110 raises TypeError.
\<close>

theorem negative_penalty_raises:
  "build_table ''A'' ''A'' 1 [(''A'', [(''A'', - 1)])] = Inr [[0, 1], [1, - 1]] \<and>
   sequence_alignment ''A'' ''A'' 1 [(''A'', [(''A'', - 1)])] = Inl TypeError"
  by code_simp

end
